theory Spec2Isabelle
  imports Complex_Main "HOL-Library.Word" "HOL-Library.Sublist"
begin

section \<open>JavaScript values used by the hooks\<close>

text \<open>
  A JavaScript string is a sequence of UTF-16 code units; \<open>length\<close> counts code units.
  \<open>js\<close> embeds an Isabelle literal (code units below 256).
\<close>

type_synonym code_unit = "16 word"
type_synonym jsstring = "code_unit list"

definition js :: "string \<Rightarrow> jsstring" where
  "js s = map (\<lambda>c. of_char c) s"

text \<open>
  A JavaScript \<open>number\<close>: a finite value or \<open>NaN\<close>. Every comparison with \<open>NaN\<close> is
  false, and \<open>NaN\<close> and \<open>0\<close> are falsy.
\<close>

datatype number = NaN | Num real

fun js_lt :: "number \<Rightarrow> number \<Rightarrow> bool" where
  "js_lt (Num a) (Num b) = (a < b)"
| "js_lt _ _ = False"

fun js_le :: "number \<Rightarrow> number \<Rightarrow> bool" where
  "js_le (Num a) (Num b) = (a \<le> b)"
| "js_le _ _ = False"

fun truthy :: "number \<Rightarrow> bool" where
  "truthy NaN = False"
| "truthy (Num a) = (a \<noteq> 0)"

text \<open>A thrown JavaScript exception, as a value.\<close>

datatype error = Thrown string

text \<open>\<open>Array.prototype.join\<close> on an array of strings.\<close>

fun join :: "jsstring \<Rightarrow> jsstring list \<Rightarrow> jsstring" where
  "join sep [] = []"
| "join sep [x] = x"
| "join sep (x # y # ys) = x @ sep @ join sep (y # ys)"

text \<open>\<open>String.prototype.split\<close> with a one-code-unit separator: n separators give n + 1 pieces.\<close>

fun split :: "code_unit \<Rightarrow> jsstring \<Rightarrow> jsstring list" where
  "split sep [] = [[]]"
| "split sep (c # cs) =
     (if c = sep then [] # split sep cs
      else (case split sep cs of [] \<Rightarrow> [[c]] | t # ts \<Rightarrow> (c # t) # ts))"

text \<open>
  ECMAScript WhiteSpace and LineTerminator code units: what \<open>trim\<close> strips and what the
  regular-expression class \<open>\s\<close> matches.
\<close>

definition isWhiteSpace :: "code_unit \<Rightarrow> bool" where
  "isWhiteSpace c =
     (c = 0x09 \<or> c = 0x0A \<or> c = 0x0B \<or> c = 0x0C \<or> c = 0x0D \<or> c = 0x20 \<or> c = 0xA0
      \<or> c = 0x1680 \<or> (0x2000 \<le> c \<and> c \<le> 0x200A) \<or> c = 0x2028 \<or> c = 0x2029
      \<or> c = 0x202F \<or> c = 0x205F \<or> c = 0x3000 \<or> c = 0xFEFF)"

definition trim :: "jsstring \<Rightarrow> jsstring" where
  "trim s = rev (dropWhile isWhiteSpace (rev (dropWhile isWhiteSpace s)))"

text \<open>
  The fragment of regular expressions the validation uses, anchored at both ends:
  a literal code unit, or one or more code units of a class. \<open>regex_test\<close> backtracks
  over the lengths of the repetitions, as \<open>RegExp.prototype.test\<close> does.
\<close>

datatype regex_item = Lit code_unit | OneOrMore "code_unit \<Rightarrow> bool"

fun regex_test :: "regex_item list \<Rightarrow> jsstring \<Rightarrow> bool" where
  "regex_test [] s = (s = [])"
| "regex_test (Lit c # r) [] = False"
| "regex_test (Lit c # r) (x # xs) = (if x = c then regex_test r xs else False)"
| "regex_test (OneOrMore p # r) [] = False"
| "regex_test (OneOrMore p # r) (x # xs) =
     (if p x then (if regex_test r xs then True else regex_test (OneOrMore p # r) xs)
      else False)"

text \<open>\<open>[^\s@]\<close>\<close>

definition notSpaceAt :: "code_unit \<Rightarrow> bool" where
  "notSpaceAt c = (\<not> isWhiteSpace c \<and> c \<noteq> 0x40)"

text \<open>\<open>/^[^\s@]+@[^\s@]+\.[^\s@]+$/\<close>\<close>

definition emailRegex :: "regex_item list" where
  "emailRegex =
     [OneOrMore notSpaceAt, Lit 0x40, OneOrMore notSpaceAt, Lit 0x2E, OneOrMore notSpaceAt]"

section \<open>useRecipientsCalculation: parsing\<close>

text \<open>The \<open>emails\<close> memo: split on commas, trim, keep the tokens that pass the validation.\<close>

definition emails :: "jsstring \<Rightarrow> jsstring list" where
  "emails recipients =
     (if recipients = [] then []
      else filter (\<lambda>email. length email > 0 \<and> length email \<le> 254 \<and> regex_test emailRegex email)
             (map trim (split 0x2C recipients)))"

section \<open>useTextMeasurement\<close>

record CSSStyleDeclaration =
  fontStyle :: jsstring
  fontWeight :: jsstring
  fontSize :: jsstring
  fontFamily :: jsstring

text \<open>
  A DOM element, as far as the hooks read it: its \<open>clientWidth\<close> (an integer number of
  pixels) and what \<open>window.getComputedStyle\<close> does on it (throws, or returns the style).
\<close>

record HTMLElement =
  clientWidth :: int
  computedStyle :: "error + CSSStyleDeclaration"

text \<open>
  A 2D canvas context: with \<open>context.font\<close> set to the first argument,
  \<open>context.measureText\<close> of the second argument throws or reports a width.
\<close>

type_synonym context2d = "jsstring \<Rightarrow> jsstring \<Rightarrow> error + number"

text \<open>
  The document: \<open>document.createElement('canvas').getContext('2d')\<close> throws, returns
  \<open>null\<close>, or returns a context.
\<close>

record document =
  canvasContext :: "error + context2d option"

text \<open>
  The object a measurement hook returns. A call of either function may throw; the
  caller's \<open>try\<close> block sees that as \<open>Inl\<close>.
\<close>

record text_measurement =
  measureTextWidth :: "jsstring \<Rightarrow> jsstring \<Rightarrow> error + number"
  getComputedFont :: "HTMLElement \<Rightarrow> error + jsstring"

definition useTextMeasurement :: "document \<Rightarrow> text_measurement" where
  "useTextMeasurement doc =
     \<lparr> measureTextWidth = (\<lambda>text font.
         (case canvasContext doc of
            Inl e \<Rightarrow> Inr (Num 0)
          | Inr None \<Rightarrow> Inr (Num 0)
          | Inr (Some context) \<Rightarrow>
              (case context font text of
                 Inl e \<Rightarrow> Inr (Num 0)
               | Inr width \<Rightarrow> Inr width))),
       getComputedFont = (\<lambda>element.
         (case computedStyle element of
            Inl e \<Rightarrow> Inl e
          | Inr style \<Rightarrow>
              Inr (fontStyle style @ js '' '' @ fontWeight style @ js '' '' @ fontSize style
                   @ js '' '' @ fontFamily style))) \<rparr>"

section \<open>useRecipientsCalculation: fitting\<close>

record RecipientsCalculationConfig =
  maxWidth :: "number option"
  ellipsisSuffix :: "jsstring option"
  allowOverflow :: "bool option"
  minWidth :: "number option"

text \<open>The destructuring of the configuration, with its defaults.\<close>

definition the_ellipsisSuffix :: "RecipientsCalculationConfig \<Rightarrow> jsstring" where
  "the_ellipsisSuffix config = (case ellipsisSuffix config of None \<Rightarrow> js '',...'' | Some s \<Rightarrow> s)"

definition the_allowOverflow :: "RecipientsCalculationConfig \<Rightarrow> bool" where
  "the_allowOverflow config = (case allowOverflow config of None \<Rightarrow> True | Some b \<Rightarrow> b)"

definition the_minWidth :: "RecipientsCalculationConfig \<Rightarrow> number" where
  "the_minWidth config = (case minWidth config of None \<Rightarrow> Num 50 | Some w \<Rightarrow> w)"

text \<open>The three state cells of the hook, and their initial values.\<close>

record calculation_state =
  st_visibleList :: "jsstring list"
  st_hiddenCount :: int
  st_isReady :: bool

definition initial_state :: calculation_state where
  "initial_state = \<lparr> st_visibleList = [], st_hiddenCount = 0, st_isReady = False \<rparr>"

text \<open>\<open>maxWidth || container.clientWidth\<close>\<close>

definition availableWidth :: "number option \<Rightarrow> HTMLElement \<Rightarrow> number" where
  "availableWidth maxW container =
     (case maxW of
        None \<Rightarrow> Num (of_int (clientWidth container))
      | Some w \<Rightarrow> if truthy w then w else Num (of_int (clientWidth container)))"

text \<open>
  The \<open>for\<close> loop of \<open>computeVisibleRecipients\<close>, from index \<open>i\<close> with the list
  \<open>visible\<close> built so far. \<open>measureText\<close> is \<open>measureTextWidth\<close> at the container's font.
  \<open>Inl\<close>: a measurement call threw. \<open>Inr\<close>: the list at the \<open>break\<close> or at the end.
\<close>

function fit_loop ::
  "(jsstring \<Rightarrow> error + number) \<Rightarrow> number \<Rightarrow> jsstring \<Rightarrow> bool \<Rightarrow> jsstring list
     \<Rightarrow> nat \<Rightarrow> jsstring list \<Rightarrow> error + jsstring list" where
  "fit_loop measureText avail ellipsis allow ems i visible =
     (if i < length ems then
        (let proposedVisible = visible @ [ems ! i];
             remaining = int (length ems) - int (length proposedVisible);
             visibleText = join (js '', '') proposedVisible;
             totalText = visibleText @ (if remaining > 0 then ellipsis else [])
         in case measureText totalText of
              Inl e \<Rightarrow> Inl e
            | Inr width \<Rightarrow>
                if js_le width avail \<or> (length visible = 0 \<and> allow)
                then fit_loop measureText avail ellipsis allow ems (i + 1) (visible @ [ems ! i])
                else Inr visible)
      else Inr visible)"
  by pat_completeness auto
termination
  by (relation "measure (\<lambda>(m, a, s, al, es, i, v). length es - i)") auto

declare fit_loop.simps [simp del]

text \<open>The body of the \<open>try\<close> block: the font lookup, then the loop.\<close>

definition try_fit ::
  "text_measurement \<Rightarrow> HTMLElement \<Rightarrow> number \<Rightarrow> jsstring \<Rightarrow> bool \<Rightarrow> jsstring list
     \<Rightarrow> error + jsstring list" where
  "try_fit tm container avail ellipsis allow ems =
     (case getComputedFont tm container of
        Inl e \<Rightarrow> Inl e
      | Inr font \<Rightarrow>
          fit_loop (\<lambda>text. measureTextWidth tm text font) avail ellipsis allow ems 0 [])"

text \<open>
  \<open>computeVisibleRecipients\<close>: the state it sets. \<open>containerRef\<close> is
  \<open>containerRef.current\<close>, \<open>None\<close> while no element is attached.
\<close>

definition computeVisibleRecipients ::
  "text_measurement \<Rightarrow> HTMLElement option \<Rightarrow> RecipientsCalculationConfig \<Rightarrow> jsstring list
     \<Rightarrow> calculation_state" where
  "computeVisibleRecipients tm containerRef config ems =
     (case containerRef of
        None \<Rightarrow>
          \<lparr> st_visibleList = [], st_hiddenCount = int (length ems), st_isReady = True \<rparr>
      | Some container \<Rightarrow>
          if length ems = 0 then
            \<lparr> st_visibleList = [], st_hiddenCount = int (length ems), st_isReady = True \<rparr>
          else if js_lt (availableWidth (maxWidth config) container) (the_minWidth config) then
            \<lparr> st_visibleList = [], st_hiddenCount = int (length ems), st_isReady = True \<rparr>
          else
            (case try_fit tm container (availableWidth (maxWidth config) container)
                    (the_ellipsisSuffix config) (the_allowOverflow config) ems of
               Inr visible \<Rightarrow>
                 \<lparr> st_visibleList = visible,
                   st_hiddenCount = int (length ems) - int (length visible),
                   st_isReady = True \<rparr>
             | Inl e \<Rightarrow>
                 \<lparr> st_visibleList = ems, st_hiddenCount = 0, st_isReady = True \<rparr>))"

text \<open>The \<open>displayText\<close> memo.\<close>

definition displayText_of :: "calculation_state \<Rightarrow> jsstring \<Rightarrow> jsstring" where
  "displayText_of st ellipsis =
     (if \<not> st_isReady st then []
      else (let visibleText = join (js '', '') (st_visibleList st)
            in if st_hiddenCount st > 0 then visibleText @ ellipsis else visibleText))"

record RecipientsCalculationResult =
  visibleList :: "jsstring list"
  hiddenCount :: int
  displayText :: jsstring
  isReady :: bool

text \<open>What the hook returns when rendered in state \<open>st\<close>.\<close>

definition render :: "calculation_state \<Rightarrow> RecipientsCalculationConfig \<Rightarrow> RecipientsCalculationResult" where
  "render st config =
     \<lparr> visibleList = st_visibleList st,
       hiddenCount = st_hiddenCount st,
       displayText = displayText_of st (the_ellipsisSuffix config),
       isReady = st_isReady st \<rparr>"

text \<open>
  One evaluation of the hook: the effect runs \<open>computeVisibleRecipients\<close> on the parsed
  \<open>emails\<close>, and the next render returns the result. \<open>tm\<close> is the object that
  \<open>useTextMeasurement()\<close> returned.
\<close>

definition useRecipientsCalculation ::
  "text_measurement \<Rightarrow> jsstring \<Rightarrow> HTMLElement option \<Rightarrow> RecipientsCalculationConfig
     \<Rightarrow> RecipientsCalculationResult" where
  "useRecipientsCalculation tm recipients containerRef config =
     render (computeVisibleRecipients tm containerRef config (emails recipients)) config"

section \<open>The fitting pass, as the specification words it\<close>

text \<open>
  The text measured for the candidate at index \<open>k\<close>: the first \<open>k + 1\<close> items joined by
  \<open>", "\<close>, plus the suffix marker exactly when items remain after that trial prefix.
\<close>

definition trialText :: "jsstring \<Rightarrow> jsstring list \<Rightarrow> nat \<Rightarrow> jsstring" where
  "trialText ellipsis ems k =
     join (js '', '') (take (Suc k) ems)
       @ (if int (length ems) - int (length (take (Suc k) ems)) > 0 then ellipsis else [])"

text \<open>
  The acceptance test for the candidate at index \<open>k\<close>, the visible list being the
  \<open>k\<close> items before it: the trial text was measured, and its width is within the
  budget or the visible list is empty and a single overflowing item is allowed.
\<close>

definition accepted ::
  "(jsstring \<Rightarrow> error + number) \<Rightarrow> number \<Rightarrow> jsstring \<Rightarrow> bool \<Rightarrow> jsstring list \<Rightarrow> nat \<Rightarrow> bool"
  where
  "accepted measureText avail ellipsis allow ems k =
     (case measureText (trialText ellipsis ems k) of
        Inl e \<Rightarrow> False
      | Inr width \<Rightarrow> js_le width avail \<or> (take k ems = [] \<and> allow))"

text \<open>
  The shape \<open>local@domain.tld\<close>: a local part, \<open>@\<close>, a domain, a dot and a top-level
  part, each part non-empty and free of whitespace and of \<open>@\<close>.
\<close>

definition email_shape :: "jsstring \<Rightarrow> bool" where
  "email_shape t =
     (\<exists>l d tld. t = l @ [0x40] @ d @ [0x2E] @ tld \<and> l \<noteq> [] \<and> d \<noteq> [] \<and> tld \<noteq> []
        \<and> list_all notSpaceAt (l @ d @ tld))"

text \<open>The validity predicate of an item: non-empty, at most 254 code units, of that shape.\<close>

definition valid_item :: "jsstring \<Rightarrow> bool" where
  "valid_item t = (t \<noteq> [] \<and> length t \<le> 254 \<and> email_shape t)"


text \<open>\<open>String.prototype.includes\<close>: the second string occurs in the first.\<close>

fun contains :: "jsstring \<Rightarrow> jsstring \<Rightarrow> bool" where
  "contains [] sub = (sub = [])"
| "contains (c # cs) sub = (prefix sub (c # cs) \<or> contains cs sub)"

section \<open>Example environments\<close>

text \<open>A canvas that renders every code unit 7 pixels wide, whatever the font.\<close>

definition monospace_document :: document where
  "monospace_document =
     \<lparr> canvasContext = Inr (Some (\<lambda>font text. Inr (Num (7 * real (length text))))) \<rparr>"

definition cell :: "int \<Rightarrow> HTMLElement" where
  "cell w =
     \<lparr> clientWidth = w,
       computedStyle = Inr \<lparr> fontStyle = js ''normal'', fontWeight = js ''400'',
                             fontSize = js ''14px'', fontFamily = js ''Arial'' \<rparr> \<rparr>"

definition default_config :: RecipientsCalculationConfig where
  "default_config =
     \<lparr> maxWidth = None, ellipsisSuffix = None, allowOverflow = None, minWidth = None \<rparr>"

definition three_recipients :: jsstring where
  "three_recipients = js ''a@x.com, bb@y.com, ccc@z.com''"

text \<open>A configuration whose suffix marker is three dots, and an address that contains them.\<close>

definition dots_config :: RecipientsCalculationConfig where
  "dots_config = default_config \<lparr> ellipsisSuffix := Some (js ''...'') \<rparr>"

definition dotted_recipient :: jsstring where
  "dotted_recipient = js ''a...b@x.com''"

text \<open>An element whose style lookup throws, a measurement that throws on long texts, a long address, and a zero width override.\<close>

definition unstyled_cell :: "int \<Rightarrow> HTMLElement" where
  "unstyled_cell w = \<lparr> clientWidth = w, computedStyle = Inl (Thrown ''getComputedStyle'') \<rparr>"

definition failing_measurement :: text_measurement where
  "failing_measurement =
     \<lparr> measureTextWidth = (\<lambda>text font.
         if length text > 15 then Inl (Thrown ''measureText'')
         else Inr (Num (7 * real (length text)))),
       getComputedFont = (\<lambda>element. Inr (js ''14px Arial'')) \<rparr>"

definition wide_recipient :: jsstring where
  "wide_recipient = js ''long.name@example.org''"

definition zero_width_config :: RecipientsCalculationConfig where
  "zero_width_config = default_config \<lparr> maxWidth := Some (Num 0) \<rparr>"

section \<open>Parsing\<close>

lemma regex_test_Lit:
  "regex_test (Lit c # r) s \<longleftrightarrow> (\<exists>xs. s = c # xs \<and> regex_test r xs)"
  by (cases s) auto

lemma regex_test_OneOrMore:
  "regex_test (OneOrMore p # r) s
     \<longleftrightarrow> (\<exists>a b. s = a @ b \<and> a \<noteq> [] \<and> list_all p a \<and> regex_test r b)"
proof (induction s)
  case Nil
  then show ?case by simp
next
  case (Cons x xs)
  show ?case
  proof
    assume m: "regex_test (OneOrMore p # r) (x # xs)"
    then have px: "p x" by (simp split: if_splits)
    from m consider "regex_test r xs" | "regex_test (OneOrMore p # r) xs"
      by (auto split: if_splits)
    then show "\<exists>a b. x # xs = a @ b \<and> a \<noteq> [] \<and> list_all p a \<and> regex_test r b"
    proof cases
      case 1
      with px have "x # xs = [x] @ xs \<and> [x] \<noteq> [] \<and> list_all p [x] \<and> regex_test r xs" by simp
      then show ?thesis by blast
    next
      case 2
      then obtain a b where ab: "xs = a @ b" "list_all p a" "regex_test r b"
        using Cons.IH by blast
      with px have "x # xs = (x # a) @ b \<and> x # a \<noteq> [] \<and> list_all p (x # a) \<and> regex_test r b"
        by simp
      then show ?thesis by blast
    qed
  next
    assume "\<exists>a b. x # xs = a @ b \<and> a \<noteq> [] \<and> list_all p a \<and> regex_test r b"
    then obtain a b where ab: "x # xs = a @ b" "a \<noteq> []" "list_all p a" "regex_test r b"
      by blast
    then obtain a' where a': "a = x # a'" "xs = a' @ b" by (cases a) auto
    with ab(3) have px: "p x" and pa: "list_all p a'" by simp_all
    show "regex_test (OneOrMore p # r) (x # xs)"
    proof (cases a')
      case Nil
      with a' ab(4) px show ?thesis by simp
    next
      case (Cons y ys)
      with a' pa ab(4) have "regex_test (OneOrMore p # r) xs"
        using Cons.IH by blast
      with px show ?thesis by simp
    qed
  qed
qed

lemma emailRegex_shape: "regex_test emailRegex t \<longleftrightarrow> email_shape t"
proof
  assume "regex_test emailRegex t"
  then obtain l b where 1: "t = l @ b" "l \<noteq> []" "list_all notSpaceAt l"
    and "regex_test [Lit 0x40, OneOrMore notSpaceAt, Lit 0x2E, OneOrMore notSpaceAt] b"
    unfolding emailRegex_def regex_test_OneOrMore by blast
  then obtain b2 where 2: "b = 0x40 # b2"
    and "regex_test [OneOrMore notSpaceAt, Lit 0x2E, OneOrMore notSpaceAt] b2"
    unfolding regex_test_Lit by blast
  then obtain d b3 where 3: "b2 = d @ b3" "d \<noteq> []" "list_all notSpaceAt d"
    and "regex_test [Lit 0x2E, OneOrMore notSpaceAt] b3"
    unfolding regex_test_OneOrMore by blast
  then obtain b4 where 4: "b3 = 0x2E # b4" and "regex_test [OneOrMore notSpaceAt] b4"
    unfolding regex_test_Lit by blast
  then obtain tld b5 where 5: "b4 = tld @ b5" "tld \<noteq> []" "list_all notSpaceAt tld"
    and "regex_test [] b5"
    unfolding regex_test_OneOrMore by blast
  then have 6: "b5 = []" by simp
  have "t = l @ [0x40] @ d @ [0x2E] @ tld" by (simp add: 1 2 3 4 5 6)
  with 1 3 5 show "email_shape t" unfolding email_shape_def by auto
next
  assume "email_shape t"
  then obtain l d tld where s: "t = l @ [0x40] @ d @ [0x2E] @ tld" "l \<noteq> []" "d \<noteq> []"
    "tld \<noteq> []" "list_all notSpaceAt l" "list_all notSpaceAt d" "list_all notSpaceAt tld"
    unfolding email_shape_def by auto
  have 5: "regex_test [OneOrMore notSpaceAt] tld"
    unfolding regex_test_OneOrMore using s(4,7) by (intro exI[of _ tld] exI[of _ "[]"]) simp
  have 4: "regex_test [Lit 0x2E, OneOrMore notSpaceAt] (0x2E # tld)"
    using 5 by simp
  have 3: "regex_test [OneOrMore notSpaceAt, Lit 0x2E, OneOrMore notSpaceAt] (d @ 0x2E # tld)"
    unfolding regex_test_OneOrMore[of _ "[Lit 0x2E, OneOrMore notSpaceAt]"]
    using s(3,6) 4 by (intro exI[of _ d] exI[of _ "0x2E # tld"]) simp
  have 2: "regex_test [Lit 0x40, OneOrMore notSpaceAt, Lit 0x2E, OneOrMore notSpaceAt]
             (0x40 # d @ 0x2E # tld)"
    using 3 by simp
  have "regex_test emailRegex (l @ 0x40 # d @ 0x2E # tld)"
    unfolding emailRegex_def
      regex_test_OneOrMore[of _ "[Lit 0x40, OneOrMore notSpaceAt, Lit 0x2E, OneOrMore notSpaceAt]"]
    using s(2,5) 2 by (intro exI[of _ l] exI[of _ "0x40 # d @ 0x2E # tld"]) simp
  then show "regex_test emailRegex t" by (simp add: s(1))
qed

lemma split_nonempty: "split sep s \<noteq> []"
  by (induction s) (auto split: list.splits)

lemma join_split: "join [sep] (split sep s) = s"
proof (induction s)
  case Nil
  then show ?case by simp
next
  case (Cons c cs)
  obtain t ts where ts: "split sep cs = t # ts"
    using split_nonempty[of sep cs] by (cases "split sep cs") auto
  show ?case
  proof (cases "c = sep")
    case True
    with Cons ts show ?thesis by simp
  next
    case False
    with Cons ts show ?thesis by (cases ts) auto
  qed
qed

lemma split_no_separator: "list_all (\<lambda>t. sep \<notin> set t) (split sep s)"
  by (induction s) (auto split: list.splits)

lemma emails_parse: "emails recipients = filter valid_item (map trim (split 0x2C recipients))"
proof (cases "recipients = []")
  case True
  then show ?thesis by (simp add: emails_def valid_item_def trim_def)
next
  case False
  have "(\<lambda>email. length email > 0 \<and> length email \<le> 254 \<and> regex_test emailRegex email) = valid_item"
    by (auto simp: valid_item_def emailRegex_shape fun_eq_iff)
  with False show ?thesis by (simp add: emails_def)
qed

text \<open>\<open>trim\<close> removes whitespace at both ends and nothing else.\<close>

lemma trim_rest:
  "trim s @ rev (takeWhile isWhiteSpace (rev (dropWhile isWhiteSpace s)))
     = dropWhile isWhiteSpace s"
  by (simp only: trim_def rev_append[symmetric] takeWhile_dropWhile_id rev_rev_ident)

lemma trim_decomposition:
  "\<exists>a b. s = a @ trim s @ b \<and> list_all isWhiteSpace a \<and> list_all isWhiteSpace b"
proof -
  let ?a = "takeWhile isWhiteSpace s"
  let ?b = "rev (takeWhile isWhiteSpace (rev (dropWhile isWhiteSpace s)))"
  have "s = ?a @ dropWhile isWhiteSpace s" by simp
  then have "s = ?a @ trim s @ ?b" by (simp only: trim_rest)
  moreover have "list_all isWhiteSpace ?a"
    unfolding list_all_iff by (meson set_takeWhileD)
  moreover have "list_all isWhiteSpace ?b"
    unfolding list_all_iff set_rev by (meson set_takeWhileD)
  ultimately show ?thesis by blast
qed

lemma trim_ends:
  assumes "trim s \<noteq> []"
  shows "\<not> isWhiteSpace (hd (trim s)) \<and> \<not> isWhiteSpace (last (trim s))"
proof -
  let ?rest = "dropWhile isWhiteSpace s"
  let ?r = "dropWhile isWhiteSpace (rev ?rest)"
  have r: "?r \<noteq> []" using assms by (simp only: trim_def rev_is_Nil_conv not_False_eq_True)
  then have "\<not> isWhiteSpace (hd ?r)" by (rule hd_dropWhile)
  moreover have "last (trim s) = hd ?r" using r by (simp only: trim_def last_rev)
  ultimately have l: "\<not> isWhiteSpace (last (trim s))" by simp
  have ne: "?rest \<noteq> []"
  proof
    assume "?rest = []"
    then have "?r = []" by (simp only: rev.simps dropWhile.simps)
    with r show False by contradiction
  qed
  then have h: "\<not> isWhiteSpace (hd ?rest)" by (rule hd_dropWhile)
  have "hd ?rest = hd (trim s)"
    using assms trim_rest[of s] by (metis hd_append2)
  with h l show ?thesis by simp
qed

section \<open>The loop\<close>

lemma fit_loop_end: "\<not> i < length ems \<Longrightarrow> fit_loop m A s al ems i v = Inr v"
  by (simp add: fit_loop.simps)

text \<open>One iteration, started with the first \<open>i\<close> items visible.\<close>

lemma fit_loop_step:
  assumes "i < length ems"
  shows "fit_loop m A s al ems i (take i ems) =
     (case m (trialText s ems i) of
        Inl e \<Rightarrow> Inl e
      | Inr w \<Rightarrow> if accepted m A s al ems i
                 then fit_loop m A s al ems (Suc i) (take (Suc i) ems)
                 else Inr (take i ems))"
proof -
  have t: "take i ems @ [ems ! i] = take (Suc i) ems"
    using assms by (simp add: take_Suc_conv_app_nth)
  have u: "fit_loop m A s al ems i (take i ems) =
     (case m (trialText s ems i) of
        Inl e \<Rightarrow> Inl e
      | Inr w \<Rightarrow> if js_le w A \<or> (length (take i ems) = 0 \<and> al)
                 then fit_loop m A s al ems (i + 1) (take (Suc i) ems)
                 else Inr (take i ems))"
    by (subst fit_loop.simps) (simp only: assms if_True Let_def trialText_def t)
  show ?thesis
  proof (cases "m (trialText s ems i)")
    case (Inl e)
    then show ?thesis unfolding u by simp
  next
    case (Inr w)
    have a: "accepted m A s al ems i = (js_le w A \<or> (length (take i ems) = 0 \<and> al))"
      unfolding accepted_def Inr length_0_conv by (simp only: sum.case)
    show ?thesis unfolding u Inr by (simp only: sum.case Suc_eq_plus1 a)
  qed
qed

text \<open>
  When the loop returns, it returns a prefix: every item in it was accepted, and the
  item after it, if any, was measured and rejected.
\<close>

lemma fit_loop_returns:
  assumes "fit_loop m A s al ems i (take i ems) = Inr v" and "i \<le> length ems"
  shows "\<exists>k. i \<le> k \<and> k \<le> length ems \<and> v = take k ems
            \<and> (\<forall>j. i \<le> j \<and> j < k \<longrightarrow> accepted m A s al ems j)
            \<and> (k < length ems \<longrightarrow> \<not> accepted m A s al ems k \<and> \<not> isl (m (trialText s ems k)))"
  using assms
proof (induction "length ems - i" arbitrary: i)
  case 0
  then have "v = take i ems" by (simp add: fit_loop_end)
  with 0 show ?case by (intro exI[of _ i]) auto
next
  case (Suc n)
  then have lt: "i < length ems" by simp
  show ?case
  proof (cases "accepted m A s al ems i")
    case True
    with Suc.prems lt have "fit_loop m A s al ems (Suc i) (take (Suc i) ems) = Inr v"
      by (simp add: fit_loop_step accepted_def split: sum.splits)
    moreover have "n = length ems - Suc i" using Suc.hyps by simp
    ultimately obtain k where k: "Suc i \<le> k" "k \<le> length ems" "v = take k ems"
      "\<forall>j. Suc i \<le> j \<and> j < k \<longrightarrow> accepted m A s al ems j"
      "k < length ems \<longrightarrow> \<not> accepted m A s al ems k \<and> \<not> isl (m (trialText s ems k))"
      using Suc.hyps(1)[of "Suc i"] lt by auto
    have "\<forall>j. i \<le> j \<and> j < k \<longrightarrow> accepted m A s al ems j"
      using k(4) True by (metis Suc_leI le_neq_implies_less)
    with k show ?thesis by (intro exI[of _ k]) auto
  next
    case False
    with Suc.prems lt have "v = take i ems \<and> \<not> isl (m (trialText s ems i))"
      by (auto simp add: fit_loop_step split: sum.splits)
    with False lt show ?thesis by (intro exI[of _ i]) auto
  qed
qed

text \<open>When the loop throws, a measurement call threw, and every item before was accepted.\<close>

lemma fit_loop_throws:
  assumes "fit_loop m A s al ems i (take i ems) = Inl e" and "i \<le> length ems"
  shows "\<exists>k. i \<le> k \<and> k < length ems
            \<and> (\<forall>j. i \<le> j \<and> j < k \<longrightarrow> accepted m A s al ems j)
            \<and> m (trialText s ems k) = Inl e"
  using assms
proof (induction "length ems - i" arbitrary: i)
  case 0
  then show ?case by (simp add: fit_loop_end)
next
  case (Suc n)
  then have lt: "i < length ems" by simp
  show ?case
  proof (cases "m (trialText s ems i)")
    case (Inl e')
    with Suc.prems lt have "e' = e" by (simp add: fit_loop_step)
    with Inl lt show ?thesis by (intro exI[of _ i]) auto
  next
    case (Inr w)
    with Suc.prems lt have acc: "accepted m A s al ems i"
      and rest: "fit_loop m A s al ems (Suc i) (take (Suc i) ems) = Inl e"
      by (auto simp add: fit_loop_step split: if_splits)
    have "n = length ems - Suc i" using Suc.hyps by simp
    then obtain k where k: "Suc i \<le> k" "k < length ems"
      "\<forall>j. Suc i \<le> j \<and> j < k \<longrightarrow> accepted m A s al ems j" "m (trialText s ems k) = Inl e"
      using Suc.hyps(1)[of "Suc i"] rest lt by auto
    have "\<forall>j. i \<le> j \<and> j < k \<longrightarrow> accepted m A s al ems j"
      using k(3) acc by (metis Suc_leI le_neq_implies_less)
    with k show ?thesis by (intro exI[of _ k]) auto
  qed
qed

text \<open>A throwing call is reached when every item before it is accepted.\<close>

lemma fit_loop_reaches_throw:
  assumes "m (trialText s ems k) = Inl e" and "k < length ems" and "i \<le> k"
    and "\<forall>j. i \<le> j \<and> j < k \<longrightarrow> accepted m A s al ems j"
  shows "fit_loop m A s al ems i (take i ems) = Inl e"
  using assms(3,4)
proof (induction "k - i" arbitrary: i)
  case 0
  then have "i = k" by simp
  with assms(1,2) show ?case by (simp add: fit_loop_step)
next
  case (Suc n)
  then have lt: "i < k" by simp
  then have acc: "accepted m A s al ems i" using Suc.prems by simp
  then obtain w where w: "m (trialText s ems i) = Inr w"
    by (auto simp: accepted_def split: sum.splits)
  have "fit_loop m A s al ems (Suc i) (take (Suc i) ems) = Inl e"
    using Suc.hyps(1)[of "Suc i"] Suc.hyps(2) Suc.prems lt by auto
  with acc w lt assms(2) show ?case by (simp add: fit_loop_step)
qed

lemma js_le_not_lt: "js_le a b \<Longrightarrow> \<not> js_lt b a"
  by (cases a; cases b) auto

lemma js_le_trans: "js_le a b \<Longrightarrow> js_le b c \<Longrightarrow> js_le a c"
  by (cases a; cases b; cases c) auto

lemma js_lt_le_mono: "\<not> js_lt a m \<Longrightarrow> js_le a b \<Longrightarrow> \<not> js_lt b m"
  by (cases a; cases b; cases m) auto

text \<open>The state after an evaluation, path by path.\<close>

lemma compute_detached:
  "computeVisibleRecipients tm None config ems =
     \<lparr> st_visibleList = [], st_hiddenCount = int (length ems), st_isReady = True \<rparr>"
  by (simp add: computeVisibleRecipients_def)

lemma compute_empty:
  "computeVisibleRecipients tm containerRef config [] =
     \<lparr> st_visibleList = [], st_hiddenCount = 0, st_isReady = True \<rparr>"
  by (simp add: computeVisibleRecipients_def split: option.splits)

lemma compute_narrow:
  "js_lt (availableWidth (maxWidth config) container) (the_minWidth config) \<Longrightarrow>
   computeVisibleRecipients tm (Some container) config ems =
     \<lparr> st_visibleList = [], st_hiddenCount = int (length ems), st_isReady = True \<rparr>"
  by (simp add: computeVisibleRecipients_def)

lemma compute_fit:
  "ems \<noteq> [] \<Longrightarrow> \<not> js_lt (availableWidth (maxWidth config) container) (the_minWidth config) \<Longrightarrow>
   computeVisibleRecipients tm (Some container) config ems =
     (case try_fit tm container (availableWidth (maxWidth config) container)
             (the_ellipsisSuffix config) (the_allowOverflow config) ems of
        Inr visible \<Rightarrow>
          \<lparr> st_visibleList = visible,
            st_hiddenCount = int (length ems) - int (length visible),
            st_isReady = True \<rparr>
      | Inl e \<Rightarrow> \<lparr> st_visibleList = ems, st_hiddenCount = 0, st_isReady = True \<rparr>)"
  by (simp add: computeVisibleRecipients_def)

lemma compute_ready: "st_isReady (computeVisibleRecipients tm containerRef config ems)"
  by (simp add: computeVisibleRecipients_def split: option.splits sum.splits)

lemma try_fit_returns:
  assumes "try_fit tm container A s al ems = Inr v"
  shows "\<exists>font k. getComputedFont tm container = Inr font \<and> k \<le> length ems \<and> v = take k ems
            \<and> (\<forall>j<k. accepted (\<lambda>text. measureTextWidth tm text font) A s al ems j)
            \<and> (k < length ems \<longrightarrow>
                 \<not> accepted (\<lambda>text. measureTextWidth tm text font) A s al ems k
                 \<and> \<not> isl (measureTextWidth tm (trialText s ems k) font))"
proof -
  from assms obtain font where f: "getComputedFont tm container = Inr font"
    and l: "fit_loop (\<lambda>text. measureTextWidth tm text font) A s al ems 0 (take 0 ems) = Inr v"
    by (auto simp: try_fit_def split: sum.splits)
  from fit_loop_returns[OF l] f show ?thesis by auto
qed

lemma compute_prefix:
  "prefix (st_visibleList (computeVisibleRecipients tm containerRef config ems)) ems"
proof (cases containerRef)
  case None
  then show ?thesis by (simp add: compute_detached)
next
  case (Some container)
  let ?A = "availableWidth (maxWidth config) container"
  show ?thesis
  proof (cases "ems = [] \<or> js_lt ?A (the_minWidth config)")
    case True
    then show ?thesis unfolding Some by (auto simp: compute_empty compute_narrow)
  next
    case False
    show ?thesis
    proof (cases "try_fit tm container ?A (the_ellipsisSuffix config) (the_allowOverflow config) ems")
      case (Inl e)
      with False show ?thesis unfolding Some by (simp add: compute_fit)
    next
      case (Inr v)
      from try_fit_returns[OF this] have "prefix v ems" by (auto simp: take_is_prefix)
      with Inr False show ?thesis unfolding Some by (simp add: compute_fit)
    qed
  qed
qed

lemma accepted_mono:
  "accepted m A s al ems j \<Longrightarrow> js_le A A' \<Longrightarrow> accepted m A' s al ems j"
  by (auto simp: accepted_def split: sum.splits intro: js_le_trans)

lemma try_fit_throws:
  assumes "try_fit tm container A s al ems = Inl e"
  shows "getComputedFont tm container = Inl e
         \<or> (\<exists>font k. getComputedFont tm container = Inr font \<and> k < length ems
              \<and> (\<forall>j<k. accepted (\<lambda>text. measureTextWidth tm text font) A s al ems j)
              \<and> measureTextWidth tm (trialText s ems k) font = Inl e)"
proof (cases "getComputedFont tm container")
  case (Inl e')
  with assms show ?thesis by (simp add: try_fit_def)
next
  case (Inr font)
  with assms have "fit_loop (\<lambda>text. measureTextWidth tm text font) A s al ems 0 (take 0 ems) = Inl e"
    by (simp add: try_fit_def)
  from fit_loop_throws[OF this] Inr show ?thesis by auto
qed

lemma try_fit_reaches_throw:
  assumes "getComputedFont tm container = Inr font" and "k < length ems"
    and "\<forall>j<k. accepted (\<lambda>text. measureTextWidth tm text font) A s al ems j"
    and "measureTextWidth tm (trialText s ems k) font = Inl e"
  shows "try_fit tm container A s al ems = Inl e"
proof -
  have "fit_loop (\<lambda>text. measureTextWidth tm text font) A s al ems 0 (take 0 ems) = Inl e"
    using assms(2,3,4) by (intro fit_loop_reaches_throw[where k = k]) auto
  with assms(1) show ?thesis by (simp add: try_fit_def)
qed

lemma try_fit_mono:
  assumes "js_le A A'"
  shows "(case try_fit tm container A s al ems of Inl e \<Rightarrow> length ems | Inr v \<Rightarrow> length v)
       \<le> (case try_fit tm container A' s al ems of Inl e \<Rightarrow> length ems | Inr v \<Rightarrow> length v)"
proof (cases "try_fit tm container A s al ems")
  case (Inl e)
  from try_fit_throws[OF this] have "try_fit tm container A' s al ems = Inl e"
  proof
    assume "getComputedFont tm container = Inl e"
    then show ?thesis by (simp add: try_fit_def)
  next
    assume "\<exists>font k. getComputedFont tm container = Inr font \<and> k < length ems
              \<and> (\<forall>j<k. accepted (\<lambda>text. measureTextWidth tm text font) A s al ems j)
              \<and> measureTextWidth tm (trialText s ems k) font = Inl e"
    then obtain font k where fk: "getComputedFont tm container = Inr font" "k < length ems"
      "\<forall>j<k. accepted (\<lambda>text. measureTextWidth tm text font) A s al ems j"
      "measureTextWidth tm (trialText s ems k) font = Inl e"
      by blast
    from fk(3) have "\<forall>j<k. accepted (\<lambda>text. measureTextWidth tm text font) A' s al ems j"
      using accepted_mono[OF _ assms] by blast
    from try_fit_reaches_throw[OF fk(1,2) this fk(4)] show ?thesis .
  qed
  with Inl show ?thesis by simp
next
  case (Inr v)
  from try_fit_returns[OF this] obtain font k where k: "getComputedFont tm container = Inr font"
    "k \<le> length ems" "v = take k ems"
    "\<forall>j<k. accepted (\<lambda>text. measureTextWidth tm text font) A s al ems j"
    by blast
  show ?thesis
  proof (cases "try_fit tm container A' s al ems")
    case (Inl e)
    with Inr k show ?thesis by simp
  next
    case (Inr v')
    from try_fit_returns[OF this] k(1) obtain k' where k': "k' \<le> length ems" "v' = take k' ems"
      "k' < length ems \<longrightarrow> \<not> accepted (\<lambda>text. measureTextWidth tm text font) A' s al ems k'"
      by auto
    have "k \<le> k'"
    proof (rule ccontr)
      assume "\<not> k \<le> k'"
      then have lt: "k' < k" by simp
      with k(4) have "accepted (\<lambda>text. measureTextWidth tm text font) A s al ems k'" by simp
      from accepted_mono[OF this assms] k' lt k(2) show False by simp
    qed
    with k k' Inr \<open>try_fit tm container A s al ems = Inr v\<close> show ?thesis by simp
  qed
qed

lemma visible_length:
  "length (visibleList (useRecipientsCalculation tm recipients (Some container) config))
     = (if emails recipients = []
           \<or> js_lt (availableWidth (maxWidth config) container) (the_minWidth config) then 0
        else (case try_fit tm container (availableWidth (maxWidth config) container)
                     (the_ellipsisSuffix config) (the_allowOverflow config) (emails recipients) of
                Inl e \<Rightarrow> length (emails recipients) | Inr v \<Rightarrow> length v))"
  by (auto simp: useRecipientsCalculation_def render_def compute_empty compute_narrow compute_fit
      split: sum.splits)

lemma the_values_maxWidth_update:
  "the_ellipsisSuffix (config\<lparr>maxWidth := w\<rparr>) = the_ellipsisSuffix config"
  "the_allowOverflow (config\<lparr>maxWidth := w\<rparr>) = the_allowOverflow config"
  "the_minWidth (config\<lparr>maxWidth := w\<rparr>) = the_minWidth config"
  by (simp_all add: the_ellipsisSuffix_def the_allowOverflow_def the_minWidth_def)

text \<open>The shipped \<open>measureTextWidth\<close> never throws: a failing canvas gives width 0.\<close>

lemma useTextMeasurement_returns:
  "\<exists>width. measureTextWidth (useTextMeasurement doc) text font = Inr width"
  by (simp add: useTextMeasurement_def split: sum.splits option.splits)

lemma useTextMeasurement_no_canvas:
  "canvasContext doc = Inl e \<or> canvasContext doc = Inr None \<Longrightarrow>
   measureTextWidth (useTextMeasurement doc) text font = Inr (Num 0)"
  by (auto simp: useTextMeasurement_def)

lemma fit_loop_all_accepted:
  assumes "\<forall>k<length ems. accepted m A s al ems k"
  shows "fit_loop m A s al ems 0 (take 0 ems) = Inr ems"
proof (cases "fit_loop m A s al ems 0 (take 0 ems)")
  case (Inl e)
  from fit_loop_throws[OF this] obtain k where "k < length ems" "m (trialText s ems k) = Inl e"
    by auto
  with assms show ?thesis by (auto simp: accepted_def)
next
  case (Inr v)
  from fit_loop_returns[OF this] obtain k where k: "k \<le> length ems" "v = take k ems"
    "k < length ems \<longrightarrow> \<not> accepted m A s al ems k"
    by auto
  with assms have "k = length ems" by (cases "k < length ems") auto
  with k Inr show ?thesis by simp
qed

text \<open>
  Without a canvas every width is 0, so with a non-negative available width every
  candidate is accepted and all items are shown.
\<close>

lemma no_canvas_shows_all:
  assumes "canvasContext doc = Inl e \<or> canvasContext doc = Inr None"
    and "computedStyle container = Inr style"
    and "\<not> js_lt (availableWidth (maxWidth config) container) (the_minWidth config)"
    and "js_le (Num 0) (availableWidth (maxWidth config) container)"
  shows "visibleList (useRecipientsCalculation (useTextMeasurement doc) recipients
           (Some container) config) = emails recipients"
proof (cases "emails recipients = []")
  case True
  then show ?thesis by (simp add: useRecipientsCalculation_def render_def compute_empty)
next
  case False
  let ?tm = "useTextMeasurement doc"
  obtain font where font: "getComputedFont ?tm container = Inr font"
    using assms(2) by (simp add: useTextMeasurement_def)
  have "accepted (\<lambda>text. measureTextWidth ?tm text font)
          (availableWidth (maxWidth config) container) (the_ellipsisSuffix config)
          (the_allowOverflow config) (emails recipients) k" for k
    using assms(4) useTextMeasurement_no_canvas[OF assms(1)] by (simp add: accepted_def)
  then have "try_fit ?tm container (availableWidth (maxWidth config) container)
          (the_ellipsisSuffix config) (the_allowOverflow config) (emails recipients)
        = Inr (emails recipients)"
    using font by (simp add: try_fit_def fit_loop_all_accepted[simplified])
  with False assms(3) show ?thesis
    by (simp add: useRecipientsCalculation_def render_def compute_fit)
qed

text \<open>Before the first evaluation the hook is not ready and shows nothing.\<close>

lemma initial_render:
  "render initial_state config
     = \<lparr> visibleList = [], hiddenCount = 0, displayText = [], isReady = False \<rparr>"
  by (simp add: render_def initial_state_def displayText_of_def)

section \<open>Substrings\<close>

lemma contains_iff: "contains s sub \<longleftrightarrow> (\<exists>p q. s = p @ sub @ q)"
proof (induction s)
  case Nil
  then show ?case by auto
next
  case (Cons c cs)
  show ?case
  proof
    assume "contains (c # cs) sub"
    then consider "prefix sub (c # cs)" | "contains cs sub" by auto
    then show "\<exists>p q. c # cs = p @ sub @ q"
    proof cases
      case 1
      then obtain q where "c # cs = sub @ q" by (auto simp: prefix_def)
      then have "c # cs = [] @ sub @ q" by simp
      then show ?thesis by blast
    next
      case 2
      then obtain p q where "cs = p @ sub @ q" using Cons.IH by auto
      then have "c # cs = (c # p) @ sub @ q" by simp
      then show ?thesis by blast
    qed
  next
    assume "\<exists>p q. c # cs = p @ sub @ q"
    then obtain p q where pq: "c # cs = p @ sub @ q" by auto
    show "contains (c # cs) sub"
    proof (cases p)
      case Nil
      with pq have "prefix sub (c # cs)" by (auto simp: prefix_def)
      then show ?thesis by simp
    next
      case (Cons a p')
      with pq have "cs = p' @ sub @ q" by simp
      then have "contains cs sub" using Cons.IH by blast
      then show ?thesis by simp
    qed
  qed
qed

lemma contains_suffix: "contains (a @ sub) sub"
proof -
  have "a @ sub = a @ sub @ []" by simp
  then show ?thesis unfolding contains_iff by blast
qed

section \<open>The example environments, evaluated\<close>

lemma emails_three:
  "emails three_recipients = [js ''a@x.com'', js ''bb@y.com'', js ''ccc@z.com'']"
  by (simp add: three_recipients_def emails_def js_def trim_def isWhiteSpace_def emailRegex_def
      notSpaceAt_def)

lemma monospace_width:
  "measureTextWidth (useTextMeasurement monospace_document) text font
     = Inr (Num (7 * real (length text)))"
  by (simp add: useTextMeasurement_def monospace_document_def)

lemma cell_font:
  "getComputedFont (useTextMeasurement doc) (cell w) = Inr (js ''normal 400 14px Arial'')"
  by (simp add: useTextMeasurement_def cell_def js_def)

lemma default_config_values:
  "maxWidth default_config = None" "the_ellipsisSuffix default_config = js '',...''"
  "the_allowOverflow default_config" "the_minWidth default_config = Num 50"
  by (simp_all add: default_config_def the_ellipsisSuffix_def the_allowOverflow_def
      the_minWidth_def)

lemma cell_width: "availableWidth None (cell w) = Num (of_int w)"
  by (simp add: availableWidth_def cell_def)

lemma narrow_result:
  "useRecipientsCalculation tm three_recipients (Some (cell 10)) default_config
     = \<lparr> visibleList = [], hiddenCount = 3, displayText = js '',...'', isReady = True \<rparr>"
  by (simp add: useRecipientsCalculation_def render_def compute_narrow default_config_values
      cell_width displayText_of_def emails_three)

lemma emails_dotted: "emails dotted_recipient = [js ''a...b@x.com'']"
  by (simp add: dotted_recipient_def emails_def js_def trim_def isWhiteSpace_def emailRegex_def
      notSpaceAt_def)

lemma dots_config_values:
  "maxWidth dots_config = None" "the_ellipsisSuffix dots_config = js ''...''"
  "the_allowOverflow dots_config" "the_minWidth dots_config = Num 50"
  by (simp_all add: dots_config_def default_config_def the_ellipsisSuffix_def the_allowOverflow_def
      the_minWidth_def)

lemma dotted_result:
  "useRecipientsCalculation (useTextMeasurement monospace_document) dotted_recipient
      (Some (cell 500)) dots_config
     = \<lparr> visibleList = [js ''a...b@x.com''], hiddenCount = 0,
         displayText = js ''a...b@x.com'', isReady = True \<rparr>"
  by (simp add: useRecipientsCalculation_def render_def compute_fit dots_config_values
      cell_width displayText_of_def emails_dotted try_fit_def cell_font fit_loop.simps
      monospace_width js_def)

lemma emails_wide: "emails wide_recipient = [js ''long.name@example.org'']"
  by (simp add: wide_recipient_def emails_def js_def trim_def isWhiteSpace_def emailRegex_def
      notSpaceAt_def)

lemma failing_measurement_values:
  "getComputedFont failing_measurement element = Inr (js ''14px Arial'')"
  "measureTextWidth failing_measurement text font
     = (if length text > 15 then Inl (Thrown ''measureText'')
        else Inr (Num (7 * real (length text))))"
  by (simp_all add: failing_measurement_def)

lemma example_result:
  "useRecipientsCalculation (useTextMeasurement monospace_document) three_recipients
      (Some (cell 160)) default_config
     = \<lparr> visibleList = [js ''a@x.com'', js ''bb@y.com''], hiddenCount = 1,
         displayText = js ''a@x.com, bb@y.com,...'', isReady = True \<rparr>"
  by (simp add: useRecipientsCalculation_def render_def compute_fit default_config_values
      cell_width displayText_of_def emails_three try_fit_def cell_font fit_loop.simps
      monospace_width js_def)

section \<open>Claims about the fitting engine\<close>

text \<open>
  C1. With a non-empty parsed item list, the container attached and the available width
  at least the minimum width, and the font lookup and the measurements returning, the
  visible list is the first \<open>k\<close> items for the \<open>k\<close> the greedy pass determines: each
  of the first \<open>k\<close> candidates was accepted (its trial text, the trial prefix joined by
  \<open>", "\<close> plus the suffix marker exactly when items remain, measures within the
  available width, or the visible list was empty and overflow is allowed), and the
  candidate at \<open>k\<close>, if there is one, was rejected: the pass stopped there and no later
  item was considered.
\<close>

theorem greedy_fit:
  assumes "containerRef = Some container"
    and "emails recipients \<noteq> []"
    and "js_le (the_minWidth config) (availableWidth (maxWidth config) container)"
    and "getComputedFont tm container = Inr font"
    and "\<forall>text. \<not> isl (measureTextWidth tm text font)"
  shows "\<exists>k\<le>length (emails recipients).
           visibleList (useRecipientsCalculation tm recipients containerRef config)
             = take k (emails recipients)
         \<and> (\<forall>j<k. accepted (\<lambda>text. measureTextWidth tm text font)
                     (availableWidth (maxWidth config) container) (the_ellipsisSuffix config)
                     (the_allowOverflow config) (emails recipients) j)
         \<and> (k < length (emails recipients) \<longrightarrow>
              \<not> accepted (\<lambda>text. measureTextWidth tm text font)
                  (availableWidth (maxWidth config) container) (the_ellipsisSuffix config)
                  (the_allowOverflow config) (emails recipients) k)"
proof -
  let ?A = "availableWidth (maxWidth config) container"
  let ?m = "\<lambda>text. measureTextWidth tm text font"
  let ?ems = "emails recipients"
  let ?loop = "fit_loop ?m ?A (the_ellipsisSuffix config) (the_allowOverflow config) ?ems 0 (take 0 ?ems)"
  have nothrow: "\<not> isl ?loop"
  proof
    assume "isl ?loop"
    then obtain e where "?loop = Inl e" by (cases ?loop) auto
    from fit_loop_throws[OF this] assms(5) show False by (auto simp: isl_def)
  qed
  then obtain v where v: "?loop = Inr v" by (cases ?loop) auto
  then have t: "try_fit tm container ?A (the_ellipsisSuffix config) (the_allowOverflow config) ?ems = Inr v"
    using assms(4) by (simp add: try_fit_def)
  have vis: "visibleList (useRecipientsCalculation tm recipients containerRef config) = v"
    using assms(1,2) js_le_not_lt[OF assms(3)] t
    by (simp add: useRecipientsCalculation_def render_def compute_fit)
  from fit_loop_returns[OF v] show ?thesis unfolding vis by auto
qed


theorem greedy_fit_witness:
  "visibleList (useRecipientsCalculation (useTextMeasurement monospace_document)
      three_recipients (Some (cell 160)) default_config)
     = [js ''a@x.com'', js ''bb@y.com'']"
proof -
  let ?tm = "useTextMeasurement monospace_document"
  let ?font = "js ''normal 400 14px Arial''"
  let ?acc = "accepted (\<lambda>text. measureTextWidth ?tm text ?font)
                (availableWidth (maxWidth default_config) (cell 160))
                (the_ellipsisSuffix default_config) (the_allowOverflow default_config)
                (emails three_recipients)"
  have h2: "emails three_recipients \<noteq> []" by (simp add: emails_three)
  have h3: "js_le (the_minWidth default_config) (availableWidth (maxWidth default_config) (cell 160))"
    by (simp add: default_config_values cell_width)
  have h4: "getComputedFont ?tm (cell 160) = Inr ?font" by (rule cell_font)
  have h5: "\<forall>text. \<not> isl (measureTextWidth ?tm text ?font)" by (simp add: monospace_width)
  from greedy_fit[OF refl h2 h3 h4 h5]
  obtain k where k: "k \<le> length (emails three_recipients)"
    "visibleList (useRecipientsCalculation ?tm three_recipients (Some (cell 160)) default_config)
       = take k (emails three_recipients)"
    "\<forall>j<k. ?acc j" "k < length (emails three_recipients) \<longrightarrow> \<not> ?acc k"
    by blast
  have a: "?acc 0" "?acc 1" "\<not> ?acc 2"
    by (simp_all add: accepted_def trialText_def monospace_width emails_three js_def
        default_config_values cell_width)
  have "k = 2"
  proof -
    have "k \<le> 3" using k(1) by (simp add: emails_three)
    then have "k = 0 \<or> k = 1 \<or> k = 2 \<or> k = 3" by presburger
    moreover have "k < 3 \<longrightarrow> \<not> ?acc k" using k(4) by (simp add: emails_three)
    ultimately show ?thesis using a k(3) by auto
  qed
  with k(2) show ?thesis by (simp add: emails_three)
qed

text \<open>
  C2. For every raw input and every configuration, on every path (fitting, empty list,
  container not attached, width below the minimum, exception fallback), the number of
  visible items plus \<open>hiddenCount\<close> is the number of valid items.
\<close>

theorem count_invariant:
  "int (length (visibleList (useRecipientsCalculation tm recipients containerRef config)))
     + hiddenCount (useRecipientsCalculation tm recipients containerRef config)
   = int (length (emails recipients))"
  by (simp add: useRecipientsCalculation_def render_def computeVisibleRecipients_def
      split: option.splits sum.splits)

theorem count_invariant_witness:
  "int (length (visibleList (useRecipientsCalculation (useTextMeasurement monospace_document)
      three_recipients (Some (cell 160)) default_config)))
     + hiddenCount (useRecipientsCalculation (useTextMeasurement monospace_document)
      three_recipients (Some (cell 160)) default_config)
   = 3"
  using count_invariant[of "useTextMeasurement monospace_document" three_recipients
      "Some (cell 160)" default_config]
  by (simp add: emails_three)

text \<open>
  C3. For every raw input and every configuration, the visible list is a prefix of the
  validated, ordered item list: nothing skipped, nothing reordered.
\<close>

theorem visible_is_prefix:
  "prefix (visibleList (useRecipientsCalculation tm recipients containerRef config))
     (emails recipients)"
  using compute_prefix[of tm containerRef config "emails recipients"]
  by (simp add: useRecipientsCalculation_def render_def)

theorem visible_is_prefix_witness:
  "prefix (visibleList (useRecipientsCalculation (useTextMeasurement monospace_document)
      three_recipients (Some (cell 160)) default_config))
     [js ''a@x.com'', js ''bb@y.com'', js ''ccc@z.com'']"
  using visible_is_prefix[of "useTextMeasurement monospace_document" three_recipients
      "Some (cell 160)" default_config]
  by (simp add: emails_three)


text \<open>
  C4, as stated, fails: with three valid items and a container 10 pixels wide, below the
  default minimum of 50, the result has \<open>hiddenCount = 3\<close> and its \<open>displayText\<close>
  is the suffix marker, not the empty string.
\<close>

theorem degenerate_displayText_counterexample:
  "js_lt (availableWidth (maxWidth default_config) (cell 10)) (the_minWidth default_config)
   \<and> useRecipientsCalculation (useTextMeasurement monospace_document) three_recipients
        (Some (cell 10)) default_config
     \<noteq> \<lparr> visibleList = [], hiddenCount = int (length (emails three_recipients)),
          displayText = [], isReady = True \<rparr>"
  by (simp add: narrow_result default_config_values cell_width emails_three js_def)

text \<open>
  C4, amended. If the parsed item list is empty, or the container is not attached, or
  the available width is below the minimum width, the result has no visible items,
  \<open>hiddenCount\<close> the number of valid items, and is ready; its \<open>displayText\<close> is the
  suffix marker alone when \<open>hiddenCount\<close> is positive and the empty string when it is 0.
\<close>

theorem degenerate_result:
  assumes "emails recipients = [] \<or> containerRef = None
           \<or> (\<exists>container. containerRef = Some container
                \<and> js_lt (availableWidth (maxWidth config) container) (the_minWidth config))"
  shows "useRecipientsCalculation tm recipients containerRef config
     = \<lparr> visibleList = [], hiddenCount = int (length (emails recipients)),
         displayText = (if int (length (emails recipients)) > 0 then the_ellipsisSuffix config else []),
         isReady = True \<rparr>"
proof -
  have "computeVisibleRecipients tm containerRef config (emails recipients)
      = \<lparr> st_visibleList = [], st_hiddenCount = int (length (emails recipients)), st_isReady = True \<rparr>"
    using assms by (cases containerRef) (auto simp: compute_detached compute_empty compute_narrow)
  then show ?thesis
    by (simp add: useRecipientsCalculation_def render_def displayText_of_def)
qed

theorem degenerate_result_witness:
  "useRecipientsCalculation (useTextMeasurement monospace_document) three_recipients
      (Some (cell 10)) default_config
     = \<lparr> visibleList = [], hiddenCount = 3, displayText = js '',...'', isReady = True \<rparr>"
proof -
  have "js_lt (availableWidth (maxWidth default_config) (cell 10)) (the_minWidth default_config)"
    by (simp add: default_config_values cell_width)
  then have "emails three_recipients = [] \<or> Some (cell 10) = None
           \<or> (\<exists>container. Some (cell 10) = Some container
                \<and> js_lt (availableWidth (maxWidth default_config) container) (the_minWidth default_config))"
    by simp
  from degenerate_result[OF this] show ?thesis
    by (simp add: emails_three default_config_values)
qed

text \<open>
  C5, as stated, fails: with the suffix marker \<open>"..."\<close> and the single valid item
  \<open>"a...b@x.com"\<close> in a wide container, the result is ready, nothing is hidden, and
  \<open>displayText\<close> contains the suffix marker.
\<close>

theorem suffix_marker_counterexample:
  "isReady (useRecipientsCalculation (useTextMeasurement monospace_document) dotted_recipient
      (Some (cell 500)) dots_config)
   \<and> \<not> hiddenCount (useRecipientsCalculation (useTextMeasurement monospace_document)
          dotted_recipient (Some (cell 500)) dots_config) > 0
   \<and> contains (displayText (useRecipientsCalculation (useTextMeasurement monospace_document)
        dotted_recipient (Some (cell 500)) dots_config)) (the_ellipsisSuffix dots_config)"
  by (simp add: dotted_result dots_config_values js_def)

text \<open>
  C5, amended. For every ready result, \<open>displayText\<close> is the visible items joined by
  \<open>", "\<close> with the suffix marker appended exactly when \<open>hiddenCount > 0\<close>; so it
  contains the suffix marker iff \<open>hiddenCount > 0\<close> or the joined visible items
  themselves contain it.
\<close>

theorem displayText_shape:
  assumes "isReady (render st config)"
  shows "displayText (render st config)
           = join (js '', '') (visibleList (render st config))
             @ (if hiddenCount (render st config) > 0 then the_ellipsisSuffix config else [])
         \<and> (contains (displayText (render st config)) (the_ellipsisSuffix config)
              \<longleftrightarrow> hiddenCount (render st config) > 0
                  \<or> contains (join (js '', '') (visibleList (render st config)))
                       (the_ellipsisSuffix config))"
  using assms by (simp add: render_def displayText_of_def contains_suffix)

theorem displayText_shape_witness:
  "displayText (render \<lparr> st_visibleList = [js ''a@x.com'', js ''bb@y.com''], st_hiddenCount = 1,
       st_isReady = True \<rparr> default_config) = js ''a@x.com, bb@y.com,...''
   \<and> contains (js ''a@x.com, bb@y.com,...'') (js '',...'')"
proof -
  let ?st = "\<lparr> st_visibleList = [js ''a@x.com'', js ''bb@y.com''], st_hiddenCount = 1,
       st_isReady = True \<rparr>"
  have r: "isReady (render ?st default_config)" by (simp add: render_def)
  have v: "visibleList (render ?st default_config) = [js ''a@x.com'', js ''bb@y.com'']"
    "hiddenCount (render ?st default_config) = 1"
    by (simp_all add: render_def)
  from displayText_shape[OF r] show ?thesis
    unfolding v by (simp add: default_config_values js_def)
qed

text \<open>
  C6. With the item list, the suffix marker, the overflow flag, the minimum width and the
  measurement fixed (the container's font lookup included), a larger available width
  never gives fewer visible items.
\<close>

theorem width_monotone:
  assumes "js_le (availableWidth (maxWidth config) container)
                 (availableWidth (maxWidth config') container')"
    and "the_ellipsisSuffix config' = the_ellipsisSuffix config"
    and "the_allowOverflow config' = the_allowOverflow config"
    and "the_minWidth config' = the_minWidth config"
    and "getComputedFont tm container' = getComputedFont tm container"
  shows "length (visibleList (useRecipientsCalculation tm recipients (Some container) config))
       \<le> length (visibleList (useRecipientsCalculation tm recipients (Some container') config'))"
proof -
  let ?A = "availableWidth (maxWidth config) container"
  let ?A' = "availableWidth (maxWidth config') container'"
  have same: "try_fit tm container' ?A' s al ems = try_fit tm container ?A' s al ems" for s al ems
    using assms(5) by (simp add: try_fit_def)
  show ?thesis
  proof (cases "emails recipients = [] \<or> js_lt ?A (the_minWidth config)")
    case True
    then show ?thesis by (simp add: visible_length)
  next
    case False
    then have "\<not> js_lt ?A' (the_minWidth config)"
      using js_lt_le_mono[OF _ assms(1)] by blast
    with False show ?thesis
      using try_fit_mono[OF assms(1), where tm = tm and container = container
          and s = "the_ellipsisSuffix config" and al = "the_allowOverflow config"
          and ems = "emails recipients"]
      by (simp add: visible_length assms(2,3,4) same)
  qed
qed

theorem width_monotone_witness:
  "length (visibleList (useRecipientsCalculation (useTextMeasurement monospace_document)
      three_recipients (Some (cell 100)) default_config))
   \<le> length (visibleList (useRecipientsCalculation (useTextMeasurement monospace_document)
      three_recipients (Some (cell 160)) default_config))"
proof -
  have h1: "js_le (availableWidth (maxWidth default_config) (cell 100))
                  (availableWidth (maxWidth default_config) (cell 160))"
    by (simp add: default_config_values cell_width)
  have h5: "getComputedFont (useTextMeasurement monospace_document) (cell 160)
          = getComputedFont (useTextMeasurement monospace_document) (cell 100)"
    by (simp add: cell_font)
  from width_monotone[OF h1 refl refl refl h5] show ?thesis .
qed

text \<open>
  C7. With overflow allowed, the container attached, the available width at least the
  minimum width and at least one valid item, the first item is always accepted, so the
  visible list starts with it and is never empty; with exactly one valid item, however
  wide, the result shows that item and hides none.
\<close>

theorem overflow_escape:
  assumes "containerRef = Some container"
    and "the_allowOverflow config"
    and "js_le (the_minWidth config) (availableWidth (maxWidth config) container)"
    and "emails recipients \<noteq> []"
  shows "(\<exists>rest. visibleList (useRecipientsCalculation tm recipients containerRef config)
                   = hd (emails recipients) # rest)
       \<and> (length (emails recipients) = 1 \<longrightarrow>
            visibleList (useRecipientsCalculation tm recipients containerRef config)
              = emails recipients
            \<and> hiddenCount (useRecipientsCalculation tm recipients containerRef config) = 0)"
proof -
  define ems where "ems = emails recipients"
  define A where "A = availableWidth (maxWidth config) container"
  define st where "st = computeVisibleRecipients tm (Some container) config ems"
  let ?m = "\<lambda>font text. measureTextWidth tm text font"
  let ?fitted = "try_fit tm container A (the_ellipsisSuffix config) (the_allowOverflow config) ems"
  have r: "visibleList (useRecipientsCalculation tm recipients containerRef config) = st_visibleList st"
    "hiddenCount (useRecipientsCalculation tm recipients containerRef config) = st_hiddenCount st"
    using assms(1) by (simp_all add: useRecipientsCalculation_def render_def st_def ems_def)
  have ne: "ems \<noteq> []" using assms(4) by (simp add: ems_def)
  then obtain x xs where xs: "ems = x # xs" by (cases ems) auto
  have fit: "st = (case ?fitted of
        Inr visible \<Rightarrow>
          \<lparr> st_visibleList = visible,
            st_hiddenCount = int (length ems) - int (length visible),
            st_isReady = True \<rparr>
      | Inl e \<Rightarrow> \<lparr> st_visibleList = ems, st_hiddenCount = 0, st_isReady = True \<rparr>)"
    unfolding st_def A_def using ne js_le_not_lt[OF assms(3)] by (rule compute_fit)
  have "(\<exists>rest. st_visibleList st = hd ems # rest)
      \<and> (length ems = 1 \<longrightarrow> st_visibleList st = ems \<and> st_hiddenCount st = 0)"
  proof (cases ?fitted)
    case (Inl e)
    then have "st_visibleList st = x # xs" "st_hiddenCount st = 0"
      by (simp_all add: fit xs)
    then show ?thesis by (simp add: xs)
  next
    case (Inr v)
    from try_fit_returns[OF this] obtain font k where k: "k \<le> length ems" "v = take k ems"
      "k < length ems \<longrightarrow>
         \<not> accepted (?m font) A (the_ellipsisSuffix config) (the_allowOverflow config) ems k
         \<and> \<not> isl (?m font (trialText (the_ellipsisSuffix config) ems k))"
      by blast
    have "k \<noteq> 0"
    proof
      assume k0: "k = 0"
      with k(3) ne have
        rej: "\<not> accepted (?m font) A (the_ellipsisSuffix config) (the_allowOverflow config) ems 0"
        and ret: "\<not> isl (?m font (trialText (the_ellipsisSuffix config) ems 0))"
        by simp_all
      from ret obtain w where "?m font (trialText (the_ellipsisSuffix config) ems 0) = Inr w"
        by (cases "?m font (trialText (the_ellipsisSuffix config) ems 0)") simp_all
      then have "accepted (?m font) A (the_ellipsisSuffix config) (the_allowOverflow config) ems 0"
        using assms(2) by (simp add: accepted_def)
      with rej show False by contradiction
    qed
    then obtain k' where k': "k = Suc k'" by (cases k) simp_all
    have v: "v = x # take k' xs" using k(2) by (simp add: xs k')
    from Inr have sv: "st_visibleList st = v"
      "st_hiddenCount st = int (length ems) - int (length v)"
      by (simp_all add: fit)
    show ?thesis by (simp add: sv v xs)
  qed
  then show ?thesis unfolding r ems_def .
qed

theorem overflow_escape_witness:
  "\<not> js_le (Num (7 * real (length (js ''long.name@example.org'')))) (Num 60)
   \<and> visibleList (useRecipientsCalculation (useTextMeasurement monospace_document)
        wide_recipient (Some (cell 60)) default_config)
      = [js ''long.name@example.org'']
   \<and> hiddenCount (useRecipientsCalculation (useTextMeasurement monospace_document)
        wide_recipient (Some (cell 60)) default_config) = 0"
proof -
  have h2: "the_allowOverflow default_config" by (simp add: default_config_values)
  have h3: "js_le (the_minWidth default_config) (availableWidth (maxWidth default_config) (cell 60))"
    by (simp add: default_config_values cell_width)
  have h4: "emails wide_recipient \<noteq> []" by (simp add: emails_wide)
  have one: "length (emails wide_recipient) = 1" by (simp add: emails_wide)
  from overflow_escape[OF refl h2 h3 h4, of "useTextMeasurement monospace_document"] one
  show ?thesis by (simp add: emails_wide js_def)
qed

text \<open>
  C8. If a call made during the measurement pass throws, either the font lookup or the
  measurement of a trial text that the loop reaches (every candidate before it was
  accepted), the hook returns a result (no error type in it): all items visible,
  \<open>hiddenCount = 0\<close>, ready.
\<close>

theorem fail_open:
  assumes "containerRef = Some container"
    and "emails recipients \<noteq> []"
    and "\<not> js_lt (availableWidth (maxWidth config) container) (the_minWidth config)"
    and "isl (getComputedFont tm container)
         \<or> (\<exists>font k. getComputedFont tm container = Inr font \<and> k < length (emails recipients)
              \<and> (\<forall>j<k. accepted (\<lambda>text. measureTextWidth tm text font)
                          (availableWidth (maxWidth config) container)
                          (the_ellipsisSuffix config) (the_allowOverflow config)
                          (emails recipients) j)
              \<and> isl (measureTextWidth tm
                        (trialText (the_ellipsisSuffix config) (emails recipients) k) font))"
  shows "useRecipientsCalculation tm recipients containerRef config
     = \<lparr> visibleList = emails recipients, hiddenCount = 0,
         displayText = join (js '', '') (emails recipients), isReady = True \<rparr>"
proof -
  let ?A = "availableWidth (maxWidth config) container"
  let ?ems = "emails recipients"
  have "\<exists>e. try_fit tm container ?A (the_ellipsisSuffix config) (the_allowOverflow config) ?ems = Inl e"
    using assms(4)
  proof
    assume "isl (getComputedFont tm container)"
    then show ?thesis by (auto simp: try_fit_def isl_def)
  next
    assume "\<exists>font k. getComputedFont tm container = Inr font \<and> k < length ?ems
              \<and> (\<forall>j<k. accepted (\<lambda>text. measureTextWidth tm text font) ?A
                          (the_ellipsisSuffix config) (the_allowOverflow config) ?ems j)
              \<and> isl (measureTextWidth tm (trialText (the_ellipsisSuffix config) ?ems k) font)"
    then obtain font k e where fk: "getComputedFont tm container = Inr font" "k < length ?ems"
      "\<forall>j<k. accepted (\<lambda>text. measureTextWidth tm text font) ?A
                (the_ellipsisSuffix config) (the_allowOverflow config) ?ems j"
      "measureTextWidth tm (trialText (the_ellipsisSuffix config) ?ems k) font = Inl e"
      by (auto simp: isl_def)
    from try_fit_reaches_throw[OF this] show ?thesis by blast
  qed
  then obtain e where
    "try_fit tm container ?A (the_ellipsisSuffix config) (the_allowOverflow config) ?ems = Inl e"
    by blast
  then have "computeVisibleRecipients tm (Some container) config ?ems
      = \<lparr> st_visibleList = ?ems, st_hiddenCount = 0, st_isReady = True \<rparr>"
    using assms(2,3) by (simp add: compute_fit)
  then show ?thesis
    using assms(1) by (simp add: useRecipientsCalculation_def render_def displayText_of_def)
qed

theorem fail_open_witness:
  "useRecipientsCalculation (useTextMeasurement monospace_document) three_recipients
      (Some (unstyled_cell 160)) default_config
     = \<lparr> visibleList = [js ''a@x.com'', js ''bb@y.com'', js ''ccc@z.com''], hiddenCount = 0,
         displayText = js ''a@x.com, bb@y.com, ccc@z.com'', isReady = True \<rparr>
   \<and> useRecipientsCalculation failing_measurement three_recipients
      (Some (cell 160)) default_config
     = \<lparr> visibleList = [js ''a@x.com'', js ''bb@y.com'', js ''ccc@z.com''], hiddenCount = 0,
         displayText = js ''a@x.com, bb@y.com, ccc@z.com'', isReady = True \<rparr>"
proof -
  have h2: "emails three_recipients \<noteq> []" by (simp add: emails_three)
  have w: "availableWidth (maxWidth default_config) (unstyled_cell 160) = Num 160"
    by (simp add: default_config_values availableWidth_def unstyled_cell_def)
  have h3: "\<not> js_lt (availableWidth (maxWidth default_config) (unstyled_cell 160))
              (the_minWidth default_config)"
    by (simp add: default_config_values availableWidth_def unstyled_cell_def)
  have h3': "\<not> js_lt (availableWidth (maxWidth default_config) (cell 160))
              (the_minWidth default_config)"
    by (simp add: cell_width default_config_values)
  have "isl (getComputedFont (useTextMeasurement monospace_document) (unstyled_cell 160))"
    by (simp add: useTextMeasurement_def unstyled_cell_def)
  then have h4: "isl (getComputedFont (useTextMeasurement monospace_document) (unstyled_cell 160))
         \<or> (\<exists>font k. getComputedFont (useTextMeasurement monospace_document) (unstyled_cell 160) = Inr font
              \<and> k < length (emails three_recipients)
              \<and> (\<forall>j<k. accepted (\<lambda>text. measureTextWidth (useTextMeasurement monospace_document) text font)
                          (availableWidth (maxWidth default_config) (unstyled_cell 160))
                          (the_ellipsisSuffix default_config) (the_allowOverflow default_config)
                          (emails three_recipients) j)
              \<and> isl (measureTextWidth (useTextMeasurement monospace_document)
                        (trialText (the_ellipsisSuffix default_config) (emails three_recipients) k) font))"
    by (rule disjI1)
  have a0: "accepted (\<lambda>text. measureTextWidth failing_measurement text (js ''14px Arial''))
              (availableWidth (maxWidth default_config) (cell 160))
              (the_ellipsisSuffix default_config) (the_allowOverflow default_config)
              (emails three_recipients) 0"
    by (simp add: accepted_def trialText_def failing_measurement_values emails_three js_def
        default_config_values cell_width)
  have t1: "isl (measureTextWidth failing_measurement
              (trialText (the_ellipsisSuffix default_config) (emails three_recipients) 1)
              (js ''14px Arial''))"
    by (simp add: trialText_def failing_measurement_values emails_three js_def
        default_config_values)
  have "getComputedFont failing_measurement (cell 160) = Inr (js ''14px Arial'')
      \<and> (1::nat) < length (emails three_recipients)
      \<and> (\<forall>j<1. accepted (\<lambda>text. measureTextWidth failing_measurement text (js ''14px Arial''))
                  (availableWidth (maxWidth default_config) (cell 160))
                  (the_ellipsisSuffix default_config) (the_allowOverflow default_config)
                  (emails three_recipients) j)
      \<and> isl (measureTextWidth failing_measurement
                (trialText (the_ellipsisSuffix default_config) (emails three_recipients) 1)
                (js ''14px Arial''))"
    using a0 t1 by (simp add: failing_measurement_values emails_three)
  then have h4': "isl (getComputedFont failing_measurement (cell 160))
         \<or> (\<exists>font k. getComputedFont failing_measurement (cell 160) = Inr font
              \<and> k < length (emails three_recipients)
              \<and> (\<forall>j<k. accepted (\<lambda>text. measureTextWidth failing_measurement text font)
                          (availableWidth (maxWidth default_config) (cell 160))
                          (the_ellipsisSuffix default_config) (the_allowOverflow default_config)
                          (emails three_recipients) j)
              \<and> isl (measureTextWidth failing_measurement
                        (trialText (the_ellipsisSuffix default_config) (emails three_recipients) k) font))"
    by blast
  from fail_open[OF refl h2 h3 h4] fail_open[OF refl h2 h3' h4']
  show ?thesis by (simp add: emails_three js_def)
qed

text \<open>
  C10. An explicit \<open>maxWidth\<close> of 0 is ignored: the available width is then the
  container's \<open>clientWidth\<close>, and for every configuration the evaluation with
  \<open>maxWidth = 0\<close> equals the evaluation with no \<open>maxWidth\<close>.
\<close>

theorem zero_maxWidth_ignored:
  "availableWidth (Some (Num 0)) container = availableWidth None container
   \<and> useRecipientsCalculation tm recipients containerRef (config\<lparr>maxWidth := Some (Num 0)\<rparr>)
     = useRecipientsCalculation tm recipients containerRef (config\<lparr>maxWidth := None\<rparr>)"
proof -
  have a: "availableWidth (Some (Num 0)) c = availableWidth None c" for c
    by (simp add: availableWidth_def)
  have "computeVisibleRecipients tm containerRef (config\<lparr>maxWidth := Some (Num 0)\<rparr>) ems
      = computeVisibleRecipients tm containerRef (config\<lparr>maxWidth := None\<rparr>) ems" for ems
    by (simp add: computeVisibleRecipients_def the_values_maxWidth_update a split: option.splits)
  then show ?thesis
    by (simp add: useRecipientsCalculation_def render_def the_values_maxWidth_update a)
qed

theorem zero_maxWidth_ignored_witness:
  "useRecipientsCalculation (useTextMeasurement monospace_document) three_recipients
      (Some (cell 160)) zero_width_config
     = \<lparr> visibleList = [js ''a@x.com'', js ''bb@y.com''], hiddenCount = 1,
         displayText = js ''a@x.com, bb@y.com,...'', isReady = True \<rparr>"
proof -
  have z: "zero_width_config = default_config\<lparr>maxWidth := Some (Num 0)\<rparr>"
    by (simp add: zero_width_config_def)
  have d: "default_config\<lparr>maxWidth := None\<rparr> = default_config"
    by (simp add: default_config_def)
  from zero_maxWidth_ignored[of "cell 160" "useTextMeasurement monospace_document"
      three_recipients "Some (cell 160)" default_config]
  show ?thesis unfolding z d by (simp add: example_result)
qed


section \<open>Claims about parsing\<close>

text \<open>
  C9. The item list is the raw string split on commas, each token trimmed, keeping, in
  order, exactly the tokens that are non-empty, at most 254 code units long and of the
  shape \<open>local@domain.tld\<close>; the raw input \<open>"notanemail, ok@z.com"\<close> yields exactly one
  valid item.
\<close>

theorem parse_recipients:
  "emails recipients = filter valid_item (map trim (split 0x2C recipients))
   \<and> emails (js ''notanemail, ok@z.com'') = [js ''ok@z.com'']"
proof
  show "emails recipients = filter valid_item (map trim (split 0x2C recipients))"
    by (rule emails_parse)
  show "emails (js ''notanemail, ok@z.com'') = [js ''ok@z.com'']"
    by (simp add: emails_def js_def trim_def isWhiteSpace_def emailRegex_def notSpaceAt_def)
qed

theorem parse_recipients_witness:
  "filter valid_item (map trim (split 0x2C three_recipients))
     = [js ''a@x.com'', js ''bb@y.com'', js ''ccc@z.com'']"
  using parse_recipients[of three_recipients] by (simp add: emails_three)

end
